theory Spec2Isabelle
  imports Main "HOL-Library.Word"
begin

section \<open>Enumerations and their underlying integers\<close>

text \<open>
  The header \<^verbatim>\<open>enumerate.hpp\<close> is generic in an enumeration type \<^verbatim>\<open>Enum\<close>. What the
  templates use of it is its underlying integral type (\<^verbatim>\<open>std::underlying_type\<close>), the two
  conversions \<^verbatim>\<open>static_cast<integral_type>\<close> and \<^verbatim>\<open>static_cast<value_type>\<close>, and the two
  enumerators \<^verbatim>\<open>BEGIN\<close> and \<^verbatim>\<open>END\<close>.

  The underlying type is a machine integer of some width \<open>'w\<close>: a \<open>'w word\<close>. Its \<open>+ 1\<close>
  and \<open>- 1\<close> are those of the word type, which wrap around. That is what C++ prescribes
  for an unsigned type and for a type narrower than \<^verbatim>\<open>int\<close> (the sum is formed in \<^verbatim>\<open>int\<close>
  and converted back). There are two places where the language differs from the word type,
  both at an extreme value of the underlying type:
  \<^item> for a signed type as wide as \<^verbatim>\<open>int\<close> or wider, a step over the greatest or under the
    least value is undefined, where the word type gives the two's complement result;
  \<^item> for a \<^verbatim>\<open>bool\<close> underlying type, taken as the unsigned type of one bit, \<open>+ 1\<close> at
    \<^verbatim>\<open>true\<close> gives \<^verbatim>\<open>true\<close>, where the word type gives 0.
  Away from the greatest value for \<open>+ 1\<close> and from the least value for \<open>- 1\<close> the word
  type is the language. The lemmas \<open>forward_traversal_no_wrap\<close> and
  \<open>reverse_traversal_no_wrap\<close> below say where the traversals stay clear of the extremes,
  and the reverse cursor, which can reach one from a well-formed enumeration, is modelled
  a second time with the undefined step as a result of its own.
  Whether the type is signed matters for the order \<^verbatim>\<open><=\<close> and for the integer that a bit
  pattern stands for; it is a field of the enumeration's description.

  A value of the enumeration is an underlying integer under a constructor of its own, so
  that the two casts are the constructor and its selector.
\<close>

datatype 'i Enum = static_cast_value_type (static_cast_integral_type: 'i)

record 'i enum_decl =
  underlying_signed :: bool
  BEGIN :: "'i Enum"
  END :: "'i Enum"

text \<open>The built-in \<^verbatim>\<open><=\<close> of two enumeration values compares their underlying integers,
  in the signed or the unsigned order of the underlying type.\<close>

definition Enum_le :: "bool \<Rightarrow> ('w::len) word Enum \<Rightarrow> 'w word Enum \<Rightarrow> bool" where
  "Enum_le is_signed a b =
     (if is_signed then word_sle (static_cast_integral_type a) (static_cast_integral_type b)
      else static_cast_integral_type a \<le> static_cast_integral_type b)"

text \<open>The mathematical integer that a value of the underlying type stands for, and the one
  that an enumeration value's underlying integer stands for.\<close>

definition integral_value :: "bool \<Rightarrow> ('w::len) word \<Rightarrow> int" where
  "integral_value is_signed i = (if is_signed then sint i else uint i)"

definition underlying_int :: "bool \<Rightarrow> ('w::len) word Enum \<Rightarrow> int" where
  "underlying_int is_signed a = integral_value is_signed (static_cast_integral_type a)"

text \<open>The least and the greatest value of the underlying type
  (\<^verbatim>\<open>std::numeric_limits<integral_type>::min()\<close> and \<^verbatim>\<open>max()\<close>), as bit patterns.\<close>

definition integral_min :: "bool \<Rightarrow> ('w::len) word" where
  "integral_min is_signed = (if is_signed then - (2 ^ (LENGTH('w) - 1)) else 0)"

definition integral_max :: "bool \<Rightarrow> ('w::len) word" where
  "integral_max is_signed = (if is_signed then 2 ^ (LENGTH('w) - 1) - 1 else - 1)"

section \<open>The cursors\<close>

subsection \<open>\<^verbatim>\<open>EnumIterBase\<close>\<close>

record 'i EnumIterBase =
  m_inner :: "'i Enum"

definition EnumIterBase_ctor :: "('w::len) word Enum \<Rightarrow> 'w word EnumIterBase" where
  "EnumIterBase_ctor inner = \<lparr>m_inner = inner\<rparr>"

definition operator_deref :: "('w::len) word EnumIterBase \<Rightarrow> 'w word Enum" where
  "operator_deref self = m_inner self"

definition operator_eq :: "('w::len) word EnumIterBase \<Rightarrow> 'w word EnumIterBase \<Rightarrow> bool" where
  "operator_eq self rhs = (m_inner self = m_inner rhs)"

definition operator_neq :: "('w::len) word EnumIterBase \<Rightarrow> 'w word EnumIterBase \<Rightarrow> bool" where
  "operator_neq self rhs = (m_inner self \<noteq> m_inner rhs)"

definition unwrap :: "('w::len) word EnumIterBase \<Rightarrow> 'w word" where
  "unwrap self = static_cast_integral_type (m_inner self)"

text \<open>\<^verbatim>\<open>wrap\<close> assigns to \<^verbatim>\<open>m_inner\<close>; the model returns the updated object.\<close>

definition wrap :: "('w::len) word EnumIterBase \<Rightarrow> 'w word \<Rightarrow> 'w word EnumIterBase" where
  "wrap self i = self\<lparr>m_inner := static_cast_value_type i\<rparr>"

subsection \<open>\<^verbatim>\<open>EnumIter\<close> and \<^verbatim>\<open>ReverseEnumIter\<close>\<close>

text \<open>
  The two derived classes add no member. Each is a type of its own around the base object.
  Their increment and decrement operators change the object and return \<^verbatim>\<open>*this\<close> by
  value: the model returns the pair of the object after the call and the value returned.
\<close>

datatype 'i EnumIter = EnumIter (EnumIter_base: "'i EnumIterBase")

datatype 'i ReverseEnumIter = ReverseEnumIter (ReverseEnumIter_base: "'i EnumIterBase")

definition EnumIter_ctor :: "('w::len) word Enum \<Rightarrow> 'w word EnumIter" where
  "EnumIter_ctor inner = EnumIter (EnumIterBase_ctor inner)"

definition ReverseEnumIter_ctor :: "('w::len) word Enum \<Rightarrow> 'w word ReverseEnumIter" where
  "ReverseEnumIter_ctor inner = ReverseEnumIter (EnumIterBase_ctor inner)"

definition EnumIter_inc :: "('w::len) word EnumIter \<Rightarrow> 'w word EnumIter \<times> 'w word EnumIter" where
  "EnumIter_inc self =
     (let this = EnumIter (wrap (EnumIter_base self) (unwrap (EnumIter_base self) + 1))
      in (this, this))"

definition EnumIter_dec :: "('w::len) word EnumIter \<Rightarrow> 'w word EnumIter \<times> 'w word EnumIter" where
  "EnumIter_dec self =
     (let this = EnumIter (wrap (EnumIter_base self) (unwrap (EnumIter_base self) - 1))
      in (this, this))"

definition ReverseEnumIter_inc ::
  "('w::len) word ReverseEnumIter \<Rightarrow> 'w word ReverseEnumIter \<times> 'w word ReverseEnumIter" where
  "ReverseEnumIter_inc self =
     (let this = ReverseEnumIter
                   (wrap (ReverseEnumIter_base self) (unwrap (ReverseEnumIter_base self) - 1))
      in (this, this))"

definition ReverseEnumIter_dec ::
  "('w::len) word ReverseEnumIter \<Rightarrow> 'w word ReverseEnumIter \<times> 'w word ReverseEnumIter" where
  "ReverseEnumIter_dec self =
     (let this = ReverseEnumIter
                   (wrap (ReverseEnumIter_base self) (unwrap (ReverseEnumIter_base self) + 1))
      in (this, this))"

section \<open>\<^verbatim>\<open>Enumerate\<close>\<close>

text \<open>
  Instantiating \<^verbatim>\<open>Enumerate<Enum>\<close> defines the two static members and evaluates the
  \<^verbatim>\<open>static_assert\<close>. A failed assertion is a compile error: no \<^verbatim>\<open>Enumerate<Enum>\<close> exists.
\<close>

datatype compile_error = Static_assertion_failed

record 'i Enumerate =
  begin_value :: "'i Enum"
  end_value :: "'i Enum"

definition Enumerate_instantiate :: "('w::len) word enum_decl \<Rightarrow> compile_error + 'w word Enumerate" where
  "Enumerate_instantiate E =
     (let r = \<lparr>begin_value = BEGIN E, end_value = END E\<rparr>
      in if Enum_le (underlying_signed E) (begin_value r) (end_value r)
         then Inr r
         else Inl Static_assertion_failed)"

definition Enumerate_begin :: "('w::len) word Enumerate \<Rightarrow> 'w word EnumIter" where
  "Enumerate_begin self = EnumIter_ctor (begin_value self)"

definition Enumerate_end :: "('w::len) word Enumerate \<Rightarrow> 'w word EnumIter" where
  "Enumerate_end self = EnumIter_ctor (end_value self)"

definition Enumerate_rbegin :: "('w::len) word Enumerate \<Rightarrow> 'w word ReverseEnumIter" where
  "Enumerate_rbegin self = snd (ReverseEnumIter_inc (ReverseEnumIter_ctor (end_value self)))"

definition Enumerate_rend :: "('w::len) word Enumerate \<Rightarrow> 'w word ReverseEnumIter" where
  "Enumerate_rend self = snd (ReverseEnumIter_inc (ReverseEnumIter_ctor (begin_value self)))"

section \<open>The traversal loops\<close>

text \<open>
  The loops of the usage example: the range-based \<^verbatim>\<open>for\<close> over \<^verbatim>\<open>Enumerate<Fruit>\<close>, which
  is \<^verbatim>\<open>for (auto it = begin(), e = end(); it != e; ++it) { auto fruit = *it; ... }\<close>, and
  the explicit loop \<^verbatim>\<open>for (auto it = rbegin(); it != rend(); ++it) { ... *it ... }\<close>.
  Each returns the values it dereferences, in the order of the visits.
\<close>

function forward_loop :: "('w::len) word EnumIter \<Rightarrow> 'w word EnumIter \<Rightarrow> 'w word Enum list" where
  "forward_loop it e =
     (if operator_neq (EnumIter_base it) (EnumIter_base e)
      then operator_deref (EnumIter_base it) # forward_loop (fst (EnumIter_inc it)) e
      else [])"
  by pat_completeness auto
termination
proof (relation "measure (\<lambda>(it, e). unat (unwrap (EnumIter_base e) - unwrap (EnumIter_base it)))")
  show "wf (measure (\<lambda>(it :: ('w::len) word EnumIter, e).
          unat (unwrap (EnumIter_base e) - unwrap (EnumIter_base it))))"
    by simp
next
  fix it e :: "('w::len) word EnumIter"
  assume ne: "operator_neq (EnumIter_base it) (EnumIter_base e)"
  let ?d = "unwrap (EnumIter_base e) - unwrap (EnumIter_base it)"
  from ne have "?d \<noteq> 0"
    by (auto simp add: operator_neq_def unwrap_def intro: Enum.expand)
  then have lt: "unat (?d - 1) < unat ?d"
    by (rule measure_unat)
  have eq: "unwrap (EnumIter_base e) - unwrap (EnumIter_base (fst (EnumIter_inc it))) = ?d - 1"
    by (simp add: EnumIter_inc_def Let_def wrap_def unwrap_def)
  from lt show "((fst (EnumIter_inc it), e), (it, e))
      \<in> measure (\<lambda>(it, e). unat (unwrap (EnumIter_base e) - unwrap (EnumIter_base it)))"
    by (simp only: in_measure prod.case eq)
qed

function reverse_loop :: "('w::len) word ReverseEnumIter \<Rightarrow> 'w word ReverseEnumIter \<Rightarrow> 'w word Enum list" where
  "reverse_loop it e =
     (if operator_neq (ReverseEnumIter_base it) (ReverseEnumIter_base e)
      then operator_deref (ReverseEnumIter_base it) # reverse_loop (fst (ReverseEnumIter_inc it)) e
      else [])"
  by pat_completeness auto
termination
proof (relation "measure (\<lambda>(it, e).
          unat (unwrap (ReverseEnumIter_base it) - unwrap (ReverseEnumIter_base e)))")
  show "wf (measure (\<lambda>(it :: ('w::len) word ReverseEnumIter, e).
          unat (unwrap (ReverseEnumIter_base it) - unwrap (ReverseEnumIter_base e))))"
    by simp
next
  fix it e :: "('w::len) word ReverseEnumIter"
  assume ne: "operator_neq (ReverseEnumIter_base it) (ReverseEnumIter_base e)"
  let ?d = "unwrap (ReverseEnumIter_base it) - unwrap (ReverseEnumIter_base e)"
  from ne have "?d \<noteq> 0"
    by (auto simp add: operator_neq_def unwrap_def intro: Enum.expand)
  then have lt: "unat (?d - 1) < unat ?d"
    by (rule measure_unat)
  have eq: "unwrap (ReverseEnumIter_base (fst (ReverseEnumIter_inc it)))
        - unwrap (ReverseEnumIter_base e) = ?d - 1"
    by (simp add: ReverseEnumIter_inc_def Let_def wrap_def unwrap_def)
  from lt show "((fst (ReverseEnumIter_inc it), e), (it, e))
      \<in> measure (\<lambda>(it, e).
          unat (unwrap (ReverseEnumIter_base it) - unwrap (ReverseEnumIter_base e)))"
    by (simp only: in_measure prod.case eq)
qed

declare forward_loop.simps [simp del]
declare reverse_loop.simps [simp del]

definition forward_traversal :: "('w::len) word Enumerate \<Rightarrow> 'w word Enum list" where
  "forward_traversal self = forward_loop (Enumerate_begin self) (Enumerate_end self)"

definition reverse_traversal :: "('w::len) word Enumerate \<Rightarrow> 'w word Enum list" where
  "reverse_traversal self = reverse_loop (Enumerate_rbegin self) (Enumerate_rend self)"

section \<open>The reverse cursor under the rules of the language\<close>

text \<open>
  \<^verbatim>\<open>unwrap()-1\<close> subtracts the \<^verbatim>\<open>int\<close> 1 from a value of the underlying type, and \<^verbatim>\<open>wrap\<close>
  takes the difference as a value of the underlying type again.
  \<^item> An underlying type narrower than \<^verbatim>\<open>int\<close> is promoted to \<^verbatim>\<open>int\<close>, where the difference
    always exists; its conversion back is the difference modulo \<open>2 ^ w\<close> (for a signed
    type this is the rule of C++20; earlier standards leave it to the implementation, and
    two's complement implementations reduce modulo \<open>2 ^ w\<close>). For \<^verbatim>\<open>bool\<close>, \<open>- 1\<close> converts
    to \<^verbatim>\<open>true\<close> and 0 to \<^verbatim>\<open>false\<close>, which is the same modulo 2.
  \<^item> An unsigned underlying type as wide as \<^verbatim>\<open>int\<close> or wider subtracts modulo \<open>2 ^ w\<close>.
  \<^item> A signed underlying type as wide as \<^verbatim>\<open>int\<close> or wider subtracts in that type: at its
    least value the difference overflows, and the behaviour is undefined.
  In the first two cases the result is the \<open>- 1\<close> of the word type, as in
  \<open>ReverseEnumIter_inc\<close>. The definitions of this section follow the reverse cursor's
  \<^verbatim>\<open>operator++\<close>, \<^verbatim>\<open>rbegin()\<close>, \<^verbatim>\<open>rend()\<close> and the reverse loop again with the third case made
  a result of its own. \<^verbatim>\<open>int\<close> is taken as 32 bits wide, as for \<^verbatim>\<open>Fruit\<close> below.
\<close>

definition int_width :: nat where
  "int_width = 32"

datatype undefined_behaviour = Signed_overflow

definition unwrap_minus_1_strict ::
  "bool \<Rightarrow> ('w::len) word EnumIterBase \<Rightarrow> undefined_behaviour + 'w word" where
  "unwrap_minus_1_strict is_signed self =
     (if is_signed \<and> int_width \<le> LENGTH('w) \<and> unwrap self = integral_min True
      then Inl Signed_overflow
      else Inr (unwrap self - 1))"

definition ReverseEnumIter_inc_strict ::
  "bool \<Rightarrow> ('w::len) word ReverseEnumIter
     \<Rightarrow> undefined_behaviour + 'w word ReverseEnumIter \<times> 'w word ReverseEnumIter" where
  "ReverseEnumIter_inc_strict is_signed self =
     (case unwrap_minus_1_strict is_signed (ReverseEnumIter_base self) of
        Inl ub \<Rightarrow> Inl ub
      | Inr i \<Rightarrow>
          (let this = ReverseEnumIter (wrap (ReverseEnumIter_base self) i)
           in Inr (this, this)))"

definition Enumerate_rbegin_strict ::
  "bool \<Rightarrow> ('w::len) word Enumerate \<Rightarrow> undefined_behaviour + 'w word ReverseEnumIter" where
  "Enumerate_rbegin_strict is_signed self =
     (case ReverseEnumIter_inc_strict is_signed (ReverseEnumIter_ctor (end_value self)) of
        Inl ub \<Rightarrow> Inl ub
      | Inr p \<Rightarrow> Inr (snd p))"

definition Enumerate_rend_strict ::
  "bool \<Rightarrow> ('w::len) word Enumerate \<Rightarrow> undefined_behaviour + 'w word ReverseEnumIter" where
  "Enumerate_rend_strict is_signed self =
     (case ReverseEnumIter_inc_strict is_signed (ReverseEnumIter_ctor (begin_value self)) of
        Inl ub \<Rightarrow> Inl ub
      | Inr p \<Rightarrow> Inr (snd p))"

function reverse_loop_strict ::
  "bool \<Rightarrow> ('w::len) word ReverseEnumIter \<Rightarrow> 'w word ReverseEnumIter
     \<Rightarrow> undefined_behaviour + 'w word Enum list" where
  "reverse_loop_strict is_signed it e =
     (if operator_neq (ReverseEnumIter_base it) (ReverseEnumIter_base e)
      then (case ReverseEnumIter_inc_strict is_signed it of
              Inl ub \<Rightarrow> Inl ub
            | Inr p \<Rightarrow>
                (case reverse_loop_strict is_signed (fst p) e of
                   Inl ub \<Rightarrow> Inl ub
                 | Inr xs \<Rightarrow> Inr (operator_deref (ReverseEnumIter_base it) # xs)))
      else Inr [])"
  by pat_completeness auto
termination
proof (relation "measure (\<lambda>(is_signed, it, e).
          unat (unwrap (ReverseEnumIter_base it) - unwrap (ReverseEnumIter_base e)))")
  show "wf (measure (\<lambda>(is_signed :: bool, it :: ('w::len) word ReverseEnumIter, e).
          unat (unwrap (ReverseEnumIter_base it) - unwrap (ReverseEnumIter_base e))))"
    by simp
next
  fix is_signed :: bool and it e :: "('w::len) word ReverseEnumIter"
    and p :: "'w word ReverseEnumIter \<times> 'w word ReverseEnumIter"
  assume ne: "operator_neq (ReverseEnumIter_base it) (ReverseEnumIter_base e)"
    and step: "ReverseEnumIter_inc_strict is_signed it = Inr p"
  let ?d = "unwrap (ReverseEnumIter_base it) - unwrap (ReverseEnumIter_base e)"
  from ne have "?d \<noteq> 0"
    by (auto simp add: operator_neq_def unwrap_def intro: Enum.expand)
  then have lt: "unat (?d - 1) < unat ?d"
    by (rule measure_unat)
  from step have "unwrap (ReverseEnumIter_base (fst p)) = unwrap (ReverseEnumIter_base it) - 1"
    by (auto simp add: ReverseEnumIter_inc_strict_def unwrap_minus_1_strict_def Let_def wrap_def
        unwrap_def split: if_splits)
  then have eq: "unwrap (ReverseEnumIter_base (fst p)) - unwrap (ReverseEnumIter_base e) = ?d - 1"
    by simp
  from lt show "((is_signed, fst p, e), (is_signed, it, e))
      \<in> measure (\<lambda>(is_signed, it, e).
          unat (unwrap (ReverseEnumIter_base it) - unwrap (ReverseEnumIter_base e)))"
    by (simp only: in_measure prod.case eq)
qed

declare reverse_loop_strict.simps [simp del]

text \<open>The loop \<^verbatim>\<open>for (auto it = rbegin(); it != rend(); ++it)\<close>: first \<^verbatim>\<open>rbegin()\<close>, then
  \<^verbatim>\<open>rend()\<close> for the test, then the steps.\<close>

definition reverse_traversal_strict ::
  "bool \<Rightarrow> ('w::len) word Enumerate \<Rightarrow> undefined_behaviour + 'w word Enum list" where
  "reverse_traversal_strict is_signed self =
     (case Enumerate_rbegin_strict is_signed self of
        Inl ub \<Rightarrow> Inl ub
      | Inr b \<Rightarrow>
          (case Enumerate_rend_strict is_signed self of
             Inl ub \<Rightarrow> Inl ub
           | Inr e \<Rightarrow> reverse_loop_strict is_signed b e))"

section \<open>The enumeration of the usage example\<close>

text \<open>
  \<^verbatim>\<open>enum class Fruit { BEGIN, Apple = BEGIN, Orange, Pear, END };\<close> has the underlying type
  \<^verbatim>\<open>int\<close>, taken as 32 bits wide, and the enumerators 0 to 3.
\<close>

definition Apple :: "32 word Enum" where
  "Apple = static_cast_value_type 0"

definition Orange :: "32 word Enum" where
  "Orange = static_cast_value_type 1"

definition Pear :: "32 word Enum" where
  "Pear = static_cast_value_type 2"

definition Fruit :: "32 word enum_decl" where
  "Fruit = \<lparr>underlying_signed = True, BEGIN = Apple, END = static_cast_value_type 3\<rparr>"



definition Lowest :: "32 word enum_decl" where
  "Lowest = \<lparr>underlying_signed = True, BEGIN = static_cast_value_type (- 2147483648),
              END = static_cast_value_type (- 2147483646)\<rparr>"

section \<open>Facts about the underlying integers\<close>

lemma two_half_power:
  "(2::int) ^ (LENGTH('w::len) - 1) + 2 ^ (LENGTH('w) - 1) = 2 ^ LENGTH('w)"
proof -
  have "LENGTH('w) = Suc (LENGTH('w) - 1)" by simp
  then have "(2::int) ^ LENGTH('w) = 2 * 2 ^ (LENGTH('w) - 1)"
    by (metis power_Suc)
  then show ?thesis by simp
qed

lemma integral_value_inverse: "word_of_int (integral_value s x) = x"
  by (simp add: integral_value_def word_of_int_uint)

lemma integral_value_inj: "integral_value s a = integral_value s b \<Longrightarrow> a = b"
  by (metis integral_value_inverse)

lemma integral_value_bounds:
  fixes x :: "'w::len word"
  shows "(if s then - (2 ^ (LENGTH('w) - 1)) else 0) \<le> integral_value s x"
    and "integral_value s x < (if s then 2 ^ (LENGTH('w) - 1) else 2 ^ LENGTH('w))"
  using sint_ge [of x] sint_lt [of x] by (simp_all add: integral_value_def)

lemma integral_value_of_int:
  assumes "(if s then - (2 ^ (LENGTH('w) - 1)) else 0) \<le> v"
    and "v < (if s then 2 ^ (LENGTH('w) - 1) else 2 ^ LENGTH('w))"
  shows "integral_value s (word_of_int v :: 'w::len word) = v"
proof (cases s)
  case True
  with assms have "- (2 ^ (LENGTH('w) - 1)) \<le> v" "v < 2 ^ (LENGTH('w) - 1)"
    by simp_all
  then have "signed_take_bit (LENGTH('w) - 1) v = v"
    by (rule signed_take_bit_int_eq_self)
  with True show ?thesis by (simp add: integral_value_def sint_sbintrunc')
next
  case False
  with assms have "0 \<le> v" "v < 2 ^ LENGTH('w)" by simp_all
  then have "take_bit LENGTH('w) v = v" by (rule take_bit_int_eq_self)
  with False show ?thesis by (simp add: integral_value_def uint_word_of_int_eq)
qed

text \<open>Adding a count to \<open>b\<close> does not wrap while the sum stays below some value of the type.\<close>

lemma integral_value_add:
  fixes b e :: "'w::len word"
  assumes "integral_value s b + int k \<le> integral_value s e"
  shows "integral_value s (b + of_nat k) = integral_value s b + int k"
proof -
  have eq: "b + of_nat k = word_of_int (integral_value s b + int k)"
    by (simp add: integral_value_inverse)
  have "(if s then - (2 ^ (LENGTH('w) - 1)) else 0) \<le> integral_value s b + int k"
    using integral_value_bounds(1) [of s b] by (simp split: if_splits)
  moreover have "integral_value s b + int k < (if s then 2 ^ (LENGTH('w) - 1) else 2 ^ LENGTH('w))"
    using integral_value_bounds(2) [of s e] assms by (simp split: if_splits)
  ultimately have "integral_value s (word_of_int (integral_value s b + int k) :: 'w word)
      = integral_value s b + int k"
    by (rule integral_value_of_int)
  then show ?thesis by (simp only: eq)
qed

text \<open>Between two values in order, the distance in the word type is the distance of the
  integers.\<close>

lemma integral_value_diff:
  fixes b e :: "'w::len word"
  assumes "integral_value s b \<le> integral_value s e"
  shows "int (unat (e - b)) = integral_value s e - integral_value s b"
proof -
  have eq: "e - b = word_of_int (integral_value s e - integral_value s b)"
    by (simp add: integral_value_inverse)
  have "0 \<le> integral_value s e - integral_value s b" using assms by simp
  moreover have "integral_value s e - integral_value s b < 2 ^ LENGTH('w)"
    using integral_value_bounds(2) [of s e] integral_value_bounds(1) [of s b]
      two_half_power [where 'w='w]
    by (simp split: if_splits)
  ultimately have "take_bit LENGTH('w) (integral_value s e - integral_value s b)
      = integral_value s e - integral_value s b"
    by (rule take_bit_int_eq_self)
  then have "uint (word_of_int (integral_value s e - integral_value s b) :: 'w word)
      = integral_value s e - integral_value s b"
    by (simp only: uint_word_of_int_eq)
  then have "uint (e - b) = integral_value s e - integral_value s b"
    by (simp only: eq)
  then show ?thesis by simp
qed

lemma integral_value_min:
  "integral_value s (integral_min s :: 'w::len word) = (if s then - (2 ^ (LENGTH('w) - 1)) else 0)"
proof (cases s)
  case True
  have "integral_value s (word_of_int (- (2 ^ (LENGTH('w) - 1))) :: 'w word)
      = - (2 ^ (LENGTH('w) - 1))"
    using True by (intro integral_value_of_int) simp_all
  with True show ?thesis by (simp add: integral_min_def)
next
  case False
  then show ?thesis by (simp add: integral_min_def integral_value_def)
qed

lemma integral_value_max:
  "integral_value s (integral_max s :: 'w::len word)
     = (if s then 2 ^ (LENGTH('w) - 1) - 1 else 2 ^ LENGTH('w) - 1)"
proof (cases s)
  case True
  have "integral_value s (word_of_int (2 ^ (LENGTH('w) - 1) - 1) :: 'w word)
      = 2 ^ (LENGTH('w) - 1) - 1"
    using True by (intro integral_value_of_int) simp_all
  with True show ?thesis by (simp add: integral_max_def)
next
  case False
  have "(- 1 :: 'w word) = word_of_int (2 ^ LENGTH('w) - 1)"
    by simp
  moreover have "integral_value s (word_of_int (2 ^ LENGTH('w) - 1) :: 'w word)
      = 2 ^ LENGTH('w) - 1"
    using False by (intro integral_value_of_int) simp_all
  ultimately show ?thesis using False by (simp only: integral_max_def if_False)
qed

text \<open>Away from the least value of the type, \<open>- 1\<close> is the predecessor; away from the
  greatest, \<open>+ 1\<close> is the successor.\<close>

lemma integral_value_pred:
  fixes x :: "'w::len word"
  assumes "x \<noteq> integral_min s"
  shows "integral_value s (x - 1) = integral_value s x - 1"
proof -
  have eq: "x - 1 = word_of_int (integral_value s x - 1)"
    by (simp add: integral_value_inverse)
  have "integral_value s x \<noteq> integral_value s (integral_min s :: 'w word)"
    using assms integral_value_inj by blast
  then have "(if s then - (2 ^ (LENGTH('w) - 1)) else 0) \<le> integral_value s x - 1"
    using integral_value_bounds(1) [of s x] by (simp add: integral_value_min split: if_splits)
  moreover have "integral_value s x - 1 < (if s then 2 ^ (LENGTH('w) - 1) else 2 ^ LENGTH('w))"
    using integral_value_bounds(2) [of s x] by (simp split: if_splits)
  ultimately have "integral_value s (word_of_int (integral_value s x - 1) :: 'w word)
      = integral_value s x - 1"
    by (rule integral_value_of_int)
  then show ?thesis by (simp only: eq)
qed

lemma integral_value_succ:
  fixes x :: "'w::len word"
  assumes "x \<noteq> integral_max s"
  shows "integral_value s (x + 1) = integral_value s x + 1"
proof -
  have eq: "x + 1 = word_of_int (integral_value s x + 1)"
    by (simp add: integral_value_inverse)
  have "integral_value s x \<noteq> integral_value s (integral_max s :: 'w word)"
    using assms integral_value_inj by blast
  then have "integral_value s x + 1 < (if s then 2 ^ (LENGTH('w) - 1) else 2 ^ LENGTH('w))"
    using integral_value_bounds(2) [of s x] by (simp add: integral_value_max split: if_splits)
  moreover have "(if s then - (2 ^ (LENGTH('w) - 1)) else 0) \<le> integral_value s x + 1"
    using integral_value_bounds(1) [of s x] by (simp split: if_splits)
  ultimately have "(if s then - (2 ^ (LENGTH('w) - 1)) else 0) \<le> integral_value s x + 1"
    and "integral_value s x + 1 < (if s then 2 ^ (LENGTH('w) - 1) else 2 ^ LENGTH('w))"
    by simp_all
  then have "integral_value s (word_of_int (integral_value s x + 1) :: 'w word)
      = integral_value s x + 1"
    by (rule integral_value_of_int)
  then show ?thesis by (simp only: eq)
qed

lemma Enum_le_iff: "Enum_le s a b \<longleftrightarrow> underlying_int s a \<le> underlying_int s b"
  by (simp add: Enum_le_def underlying_int_def integral_value_def word_sle_eq word_le_def)

lemma upto_shifted: "map (\<lambda>k. a + int k) [0..<n] = [a .. a + int n - 1]"
proof (induction n)
  case 0
  show ?case by simp
next
  case (Suc n)
  have "[a .. a + int (Suc n) - 1] = [a .. a + int n - 1] @ [a + int n]"
    using upto_rec2 [of a "a + int n"] by simp
  with Suc show ?case by simp
qed

section \<open>Facts about the loops\<close>

lemma EnumIter_inc_ctor:
  "fst (EnumIter_inc (EnumIter_ctor (static_cast_value_type b)))
     = EnumIter_ctor (static_cast_value_type (b + 1))"
  by (simp add: EnumIter_inc_def Let_def EnumIter_ctor_def EnumIterBase_ctor_def wrap_def
      unwrap_def)

lemma ReverseEnumIter_inc_ctor:
  "fst (ReverseEnumIter_inc (ReverseEnumIter_ctor (static_cast_value_type b)))
     = ReverseEnumIter_ctor (static_cast_value_type (b - 1))"
  "snd (ReverseEnumIter_inc (ReverseEnumIter_ctor (static_cast_value_type b)))
     = ReverseEnumIter_ctor (static_cast_value_type (b - 1))"
  by (simp_all add: ReverseEnumIter_inc_def Let_def ReverseEnumIter_ctor_def EnumIterBase_ctor_def
      wrap_def unwrap_def)

text \<open>The forward loop from \<open>b\<close> to \<open>e\<close> runs \<open>unat (e - b)\<close> times and visits
  \<open>b\<close>, \<open>b + 1\<close>, and so on.\<close>

lemma forward_loop_words:
  "unat (e - b) = n \<Longrightarrow>
   forward_loop (EnumIter_ctor (static_cast_value_type b)) (EnumIter_ctor (static_cast_value_type e))
     = map (\<lambda>k. static_cast_value_type (b + of_nat k)) [0..<n]"
proof (induction n arbitrary: b)
  case 0
  then have "e = b" by (simp add: unat_eq_0)
  then show ?case
    by (simp add: forward_loop.simps operator_neq_def EnumIter_ctor_def EnumIterBase_ctor_def)
next
  case (Suc n)
  then have ne: "e - b \<noteq> 0" by auto
  then have neq: "e \<noteq> b" by simp
  have "unat (e - (b + 1)) = n"
    using Suc.prems unat_minus_one [OF ne] by (simp add: diff_diff_eq)
  then have IH: "forward_loop (EnumIter_ctor (static_cast_value_type (b + 1)))
       (EnumIter_ctor (static_cast_value_type e))
     = map (\<lambda>k. static_cast_value_type (b + 1 + of_nat k)) [0..<n]"
    by (rule Suc.IH)
  have "forward_loop (EnumIter_ctor (static_cast_value_type b))
       (EnumIter_ctor (static_cast_value_type e))
     = static_cast_value_type b # forward_loop (EnumIter_ctor (static_cast_value_type (b + 1)))
       (EnumIter_ctor (static_cast_value_type e))"
    using neq
    by (subst forward_loop.simps)
       (simp add: EnumIter_inc_ctor,
        simp add: operator_neq_def operator_deref_def EnumIter_ctor_def EnumIterBase_ctor_def)
  also have "\<dots> = static_cast_value_type b
      # map (\<lambda>k. static_cast_value_type (b + 1 + of_nat k)) [0..<n]"
    by (simp only: IH)
  also have "\<dots> = map (\<lambda>k. static_cast_value_type (b + of_nat k)) [0..<Suc n]"
    by (simp add: upt_conv_Cons map_Suc_upt [symmetric] add.assoc del: upt_Suc)
  finally show ?case .
qed

text \<open>The reverse loop from \<open>b\<close> down to \<open>e\<close> runs \<open>unat (b - e)\<close> times and visits
  \<open>b\<close>, \<open>b - 1\<close>, and so on.\<close>

lemma reverse_loop_words:
  "unat (b - e) = n \<Longrightarrow>
   reverse_loop (ReverseEnumIter_ctor (static_cast_value_type b))
       (ReverseEnumIter_ctor (static_cast_value_type e))
     = map (\<lambda>k. static_cast_value_type (b - of_nat k)) [0..<n]"
proof (induction n arbitrary: b)
  case 0
  then have "e = b" by (simp add: unat_eq_0)
  then show ?case
    by (simp add: reverse_loop.simps operator_neq_def ReverseEnumIter_ctor_def
        EnumIterBase_ctor_def)
next
  case (Suc n)
  then have ne: "b - e \<noteq> 0" by auto
  then have neq: "b \<noteq> e" by simp
  have "unat (b - 1 - e) = n"
    using Suc.prems unat_minus_one [OF ne] by (simp add: algebra_simps)
  then have IH: "reverse_loop (ReverseEnumIter_ctor (static_cast_value_type (b - 1)))
       (ReverseEnumIter_ctor (static_cast_value_type e))
     = map (\<lambda>k. static_cast_value_type (b - 1 - of_nat k)) [0..<n]"
    by (rule Suc.IH)
  have "reverse_loop (ReverseEnumIter_ctor (static_cast_value_type b))
       (ReverseEnumIter_ctor (static_cast_value_type e))
     = static_cast_value_type b
       # reverse_loop (ReverseEnumIter_ctor (static_cast_value_type (b - 1)))
           (ReverseEnumIter_ctor (static_cast_value_type e))"
    using neq
    by (subst reverse_loop.simps)
       (simp add: ReverseEnumIter_inc_ctor,
        simp add: operator_neq_def operator_deref_def ReverseEnumIter_ctor_def
          EnumIterBase_ctor_def)
  also have "\<dots> = static_cast_value_type b
      # map (\<lambda>k. static_cast_value_type (b - 1 - of_nat k)) [0..<n]"
    by (simp only: IH)
  also have "\<dots> = map (\<lambda>k. static_cast_value_type (b - of_nat k)) [0..<Suc n]"
    by (simp add: upt_conv_Cons map_Suc_upt [symmetric] diff_diff_eq del: upt_Suc)
  finally show ?case .
qed

text \<open>Reading the ascending run from \<open>b\<close> to \<open>e\<close> backwards is the descending run
  from \<open>e - 1\<close>.\<close>

lemma rev_ascending:
  fixes b e :: "'w::len word"
  assumes n: "unat (e - b) = n"
  shows "rev (map (\<lambda>k. static_cast_value_type (b + of_nat k)) [0..<n])
     = map (\<lambda>k. static_cast_value_type (e - 1 - of_nat k)) [0..<n]"
proof (rule nth_equalityI)
  show "length (rev (map (\<lambda>k. static_cast_value_type (b + of_nat k)) [0..<n]))
      = length (map (\<lambda>k. static_cast_value_type (e - 1 - of_nat k)) [0..<n])"
    by simp
next
  fix i
  assume "i < length (rev (map (\<lambda>k. static_cast_value_type (b + of_nat k)) [0..<n]))"
  then have i: "i < n" by simp
  have "of_nat n = e - b"
    using n by auto
  moreover have "(of_nat (n - Suc i) :: 'w word) = of_nat n - of_nat (Suc i)"
    using i by simp
  ultimately have "b + of_nat (n - Suc i) = e - 1 - of_nat i"
    by simp
  with i show "rev (map (\<lambda>k. static_cast_value_type (b + of_nat k)) [0..<n]) ! i
      = map (\<lambda>k. static_cast_value_type (e - 1 - of_nat k)) [0..<n] ! i"
    by (simp add: rev_nth)
qed

lemma EnumIter_inc_funpow:
  "((\<lambda>c. fst (EnumIter_inc c)) ^^ n) (EnumIter_ctor (static_cast_value_type b))
     = EnumIter_ctor (static_cast_value_type (b + of_nat n))"
  by (induction n) (simp_all add: EnumIter_inc_ctor ac_simps)

section \<open>Facts about \<^verbatim>\<open>Enumerate\<close>\<close>

lemma Enumerate_instantiate_Inr:
  assumes "Enumerate_instantiate E = Inr r"
  shows "r = \<lparr>begin_value = BEGIN E, end_value = END E\<rparr>"
    and "underlying_int (underlying_signed E) (BEGIN E) \<le> underlying_int (underlying_signed E) (END E)"
  using assms by (simp_all add: Enumerate_instantiate_def Let_def Enum_le_iff split: if_splits)

lemma forward_traversal_words:
  "forward_traversal \<lparr>begin_value = static_cast_value_type b, end_value = static_cast_value_type e\<rparr>
     = map (\<lambda>k. static_cast_value_type (b + of_nat k)) [0..<unat (e - b)]"
  by (simp add: forward_traversal_def Enumerate_begin_def Enumerate_end_def forward_loop_words)

lemma reverse_traversal_words:
  "reverse_traversal \<lparr>begin_value = static_cast_value_type b, end_value = static_cast_value_type e\<rparr>
     = map (\<lambda>k. static_cast_value_type (e - 1 - of_nat k)) [0..<unat (e - b)]"
  by (simp add: reverse_traversal_def Enumerate_rbegin_def Enumerate_rend_def
      ReverseEnumIter_inc_ctor reverse_loop_words)

text \<open>The reverse traversal visits what the forward traversal visits, backwards. This needs
  no order between \<^verbatim>\<open>BEGIN\<close> and \<^verbatim>\<open>END\<close>.\<close>

lemma reverse_traversal_rev: "reverse_traversal r = rev (forward_traversal r)"
proof -
  obtain b e where r: "r = \<lparr>begin_value = static_cast_value_type b,
      end_value = static_cast_value_type e\<rparr>"
    by (cases r, cases "begin_value r", cases "end_value r") simp
  show ?thesis
    unfolding r forward_traversal_words reverse_traversal_words
    by (rule rev_ascending [symmetric]) simp
qed

text \<open>With \<^verbatim>\<open>BEGIN <= END\<close>, the integers of the values visited forwards are those from
  \<^verbatim>\<open>BEGIN\<close> up to \<^verbatim>\<open>END - 1\<close>.\<close>

lemma forward_traversal_ints:
  fixes B E :: "('w::len) word Enum"
  assumes le: "underlying_int s B \<le> underlying_int s E"
  shows "map (underlying_int s) (forward_traversal \<lparr>begin_value = B, end_value = E\<rparr>)
     = [underlying_int s B .. underlying_int s E - 1]"
proof -
  obtain b e where B: "B = static_cast_value_type b" and E: "E = static_cast_value_type e"
    by (cases B, cases E) simp
  let ?n = "unat (e - b)"
  from le have le': "integral_value s b \<le> integral_value s e"
    by (simp add: B E underlying_int_def)
  then have n: "int ?n = integral_value s e - integral_value s b"
    by (rule integral_value_diff)
  have "map (underlying_int s) (forward_traversal \<lparr>begin_value = B, end_value = E\<rparr>)
      = map (\<lambda>k. integral_value s (b + of_nat k)) [0..<?n]"
    by (simp add: B E forward_traversal_words underlying_int_def comp_def)
  also have "\<dots> = map (\<lambda>k. integral_value s b + int k) [0..<?n]"
  proof (rule map_cong [OF refl])
    fix k
    assume "k \<in> set [0..<?n]"
    then have "int k < int ?n"
      by (simp del: of_nat_unat)
    then have "integral_value s b + int k \<le> integral_value s e"
      unfolding n by linarith
    then show "integral_value s (b + of_nat k) = integral_value s b + int k"
      by (rule integral_value_add)
  qed
  also have "\<dots> = [integral_value s b .. integral_value s b + int ?n - 1]"
    by (rule upto_shifted)
  also have "\<dots> = [underlying_int s B .. underlying_int s E - 1]"
    using n by (simp add: B E underlying_int_def)
  finally show ?thesis .
qed

text \<open>No \<^verbatim>\<open>operator++\<close> of the forward traversal is applied at the greatest value of the
  underlying type; and unless \<^verbatim>\<open>BEGIN\<close> is the least value of the type, none of the reverse
  traversal is applied at the least value.\<close>

lemma forward_traversal_no_wrap:
  assumes "Enumerate_instantiate E = Inr r" and v: "v \<in> set (forward_traversal r)"
  shows "static_cast_integral_type v \<noteq> integral_max (underlying_signed E)"
proof
  let ?s = "underlying_signed E"
  assume top: "static_cast_integral_type v = integral_max ?s"
  note inst = Enumerate_instantiate_Inr [OF assms(1)]
  have "map (underlying_int ?s) (forward_traversal r)
      = [underlying_int ?s (BEGIN E) .. underlying_int ?s (END E) - 1]"
    unfolding inst(1) using inst(2) by (rule forward_traversal_ints)
  moreover from v have "underlying_int ?s v \<in> set (map (underlying_int ?s) (forward_traversal r))"
    by simp
  ultimately have "underlying_int ?s v < underlying_int ?s (END E)"
    by simp
  moreover have "underlying_int ?s (END E) \<le> underlying_int ?s v"
    using integral_value_bounds(2) [of ?s "static_cast_integral_type (END E)"]
    by (simp add: underlying_int_def top integral_value_max split: if_splits)
  ultimately show False by simp
qed

lemma reverse_traversal_no_wrap:
  assumes "Enumerate_instantiate E = Inr r"
    and low: "static_cast_integral_type (BEGIN E) \<noteq> integral_min (underlying_signed E)"
    and v: "v \<in> set (reverse_traversal r)"
  shows "static_cast_integral_type v \<noteq> integral_min (underlying_signed E)"
proof
  let ?s = "underlying_signed E"
  assume bot: "static_cast_integral_type v = integral_min ?s"
  note inst = Enumerate_instantiate_Inr [OF assms(1)]
  have "map (underlying_int ?s) (forward_traversal r)
      = [underlying_int ?s (BEGIN E) .. underlying_int ?s (END E) - 1]"
    unfolding inst(1) using inst(2) by (rule forward_traversal_ints)
  moreover from v have "underlying_int ?s v \<in> set (map (underlying_int ?s) (forward_traversal r))"
    by (simp add: reverse_traversal_rev)
  ultimately have "underlying_int ?s (BEGIN E) \<le> underlying_int ?s v"
    by simp
  moreover have "underlying_int ?s v \<le> underlying_int ?s (BEGIN E)"
    using integral_value_bounds(1) [of ?s "static_cast_integral_type (BEGIN E)"]
    by (simp add: underlying_int_def bot integral_value_min split: if_splits)
  ultimately have "integral_value ?s (static_cast_integral_type (BEGIN E))
      = integral_value ?s (static_cast_integral_type v)"
    by (simp add: underlying_int_def)
  then have "static_cast_integral_type (BEGIN E) = static_cast_integral_type v"
    by (rule integral_value_inj)
  with low bot show False by simp
qed

text \<open>The traversals of the usage example.\<close>

lemma Fruit_forward_traversal:
  "forward_traversal \<lparr>begin_value = BEGIN Fruit, end_value = END Fruit\<rparr> = [Apple, Orange, Pear]"
  by code_simp

lemma Fruit_reverse_traversal:
  "reverse_traversal \<lparr>begin_value = BEGIN Fruit, end_value = END Fruit\<rparr> = [Pear, Orange, Apple]"
  by code_simp

section \<open>Facts about the reverse cursor under the rules of the language\<close>

text \<open>Where the step is defined, it is the step of \<open>ReverseEnumIter_inc\<close>.\<close>

lemma ReverseEnumIter_inc_strict_Inr:
  fixes c :: "('w::len) word ReverseEnumIter"
  assumes "\<not> (s \<and> int_width \<le> LENGTH('w) \<and> unwrap (ReverseEnumIter_base c) = integral_min True)"
  shows "ReverseEnumIter_inc_strict s c = Inr (ReverseEnumIter_inc c)"
  using assms
  by (simp add: ReverseEnumIter_inc_strict_def unwrap_minus_1_strict_def ReverseEnumIter_inc_def
      Let_def)

lemma reverse_loop_strict_defined:
  assumes "\<And>v. v \<in> set (reverse_loop it e)
      \<Longrightarrow> \<not> (s \<and> static_cast_integral_type v = integral_min True)"
  shows "reverse_loop_strict s it e = Inr (reverse_loop it e)"
  using assms
proof (induction it e rule: reverse_loop.induct)
  case (1 it e)
  show ?case
  proof (cases "operator_neq (ReverseEnumIter_base it) (ReverseEnumIter_base e)")
    case False
    then show ?thesis
      by (simp add: reverse_loop_strict.simps [of s it e] reverse_loop.simps [of it e])
  next
    case True
    then have unfold: "reverse_loop it e = operator_deref (ReverseEnumIter_base it)
        # reverse_loop (fst (ReverseEnumIter_inc it)) e"
      by (simp add: reverse_loop.simps [of it e])
    have "operator_deref (ReverseEnumIter_base it) \<in> set (reverse_loop it e)"
      by (simp add: unfold)
    then have "\<not> (s \<and> static_cast_integral_type (operator_deref (ReverseEnumIter_base it))
        = integral_min True)"
      by (rule "1.prems")
    then have "\<not> (s \<and> int_width \<le> LENGTH('a)
        \<and> unwrap (ReverseEnumIter_base it) = integral_min True)"
      by (simp add: unwrap_def operator_deref_def)
    then have step: "ReverseEnumIter_inc_strict s it = Inr (ReverseEnumIter_inc it)"
      by (rule ReverseEnumIter_inc_strict_Inr)
    have "reverse_loop_strict s (fst (ReverseEnumIter_inc it)) e
        = Inr (reverse_loop (fst (ReverseEnumIter_inc it)) e)"
    proof (rule "1.IH" [OF True])
      fix v
      assume "v \<in> set (reverse_loop (fst (ReverseEnumIter_inc it)) e)"
      then have "v \<in> set (reverse_loop it e)"
        by (simp add: unfold)
      then show "\<not> (s \<and> static_cast_integral_type v = integral_min True)"
        by (rule "1.prems")
    qed
    with True step show ?thesis
      by (simp add: reverse_loop_strict.simps [of s it e] unfold)
  qed
qed

lemma not_least_mono:
  fixes b e :: "('w::len) word"
  assumes le: "integral_value s b \<le> integral_value s e" and b: "b \<noteq> integral_min s"
  shows "e \<noteq> integral_min s"
proof
  assume "e = integral_min s"
  then have "integral_value s e \<le> integral_value s b"
    using integral_value_bounds(1) [of s b] by (simp add: integral_value_min)
  with le have "integral_value s b = integral_value s e" by simp
  then have "b = e" by (rule integral_value_inj)
  with b \<open>e = integral_min s\<close> show False by simp
qed

text \<open>Unless \<^verbatim>\<open>BEGIN\<close> is the least value of a signed underlying type, every step of the
  reverse traversal is defined, and the traversal is that of \<open>reverse_traversal\<close>.\<close>

lemma reverse_traversal_strict_defined:
  assumes inst: "Enumerate_instantiate E = Inr r"
    and low: "underlying_signed E
      \<longrightarrow> static_cast_integral_type (BEGIN E) \<noteq> integral_min True"
  shows "reverse_traversal_strict (underlying_signed E) r = Inr (reverse_traversal r)"
proof -
  let ?s = "underlying_signed E"
  note r = Enumerate_instantiate_Inr [OF inst]
  have high: "?s \<longrightarrow> static_cast_integral_type (END E) \<noteq> integral_min True"
  proof
    assume s: ?s
    with low have "static_cast_integral_type (BEGIN E) \<noteq> integral_min ?s" by simp
    with r(2) have "static_cast_integral_type (END E) \<noteq> integral_min ?s"
      unfolding underlying_int_def by (rule not_least_mono)
    with s show "static_cast_integral_type (END E) \<noteq> integral_min True" by simp
  qed
  have "ReverseEnumIter_inc_strict ?s (ReverseEnumIter_ctor (END E))
      = Inr (ReverseEnumIter_inc (ReverseEnumIter_ctor (END E)))"
    using high
    by (intro ReverseEnumIter_inc_strict_Inr)
       (simp add: ReverseEnumIter_ctor_def EnumIterBase_ctor_def unwrap_def)
  then have b: "Enumerate_rbegin_strict ?s r = Inr (Enumerate_rbegin r)"
    by (simp add: Enumerate_rbegin_strict_def Enumerate_rbegin_def r(1))
  have "ReverseEnumIter_inc_strict ?s (ReverseEnumIter_ctor (BEGIN E))
      = Inr (ReverseEnumIter_inc (ReverseEnumIter_ctor (BEGIN E)))"
    using low
    by (intro ReverseEnumIter_inc_strict_Inr)
       (simp add: ReverseEnumIter_ctor_def EnumIterBase_ctor_def unwrap_def)
  then have e: "Enumerate_rend_strict ?s r = Inr (Enumerate_rend r)"
    by (simp add: Enumerate_rend_strict_def Enumerate_rend_def r(1))
  have "reverse_loop_strict ?s (Enumerate_rbegin r) (Enumerate_rend r)
      = Inr (reverse_loop (Enumerate_rbegin r) (Enumerate_rend r))"
  proof (rule reverse_loop_strict_defined)
    fix v
    assume v: "v \<in> set (reverse_loop (Enumerate_rbegin r) (Enumerate_rend r))"
    show "\<not> (?s \<and> static_cast_integral_type v = integral_min True)"
    proof
      assume a: "?s \<and> static_cast_integral_type v = integral_min True"
      with low have "static_cast_integral_type (BEGIN E) \<noteq> integral_min ?s" by simp
      moreover from v have "v \<in> set (reverse_traversal r)"
        by (simp add: reverse_traversal_def)
      ultimately have "static_cast_integral_type v \<noteq> integral_min ?s"
        by (rule reverse_traversal_no_wrap [OF inst])
      with a show False by simp
    qed
  qed
  with b e show ?thesis
    by (simp add: reverse_traversal_strict_def reverse_traversal_def)
qed

section \<open>Equality of cursors\<close>

text \<open>
  Claim C6. Two cursors of the same variant compare equal with \<^verbatim>\<open>operator==\<close> exactly when
  the underlying integers of their wrapped values are equal. The operator is the one of the
  base class, which both variants inherit; it is stated for two forward cursors and for two
  reverse cursors.
\<close>

theorem operator_eq_iff_unwrap:
  "(operator_eq (EnumIter_base a) (EnumIter_base b)
      \<longleftrightarrow> unwrap (EnumIter_base a) = unwrap (EnumIter_base b)) \<and>
   (operator_eq (ReverseEnumIter_base x) (ReverseEnumIter_base y)
      \<longleftrightarrow> unwrap (ReverseEnumIter_base x) = unwrap (ReverseEnumIter_base y))"
  by (auto simp add: operator_eq_def unwrap_def intro: Enum.expand)

text \<open>
  Claim C10. For two cursors of the same variant, \<^verbatim>\<open>operator!=\<close> returns true exactly when
  \<^verbatim>\<open>operator==\<close> returns false.
\<close>

theorem operator_neq_iff_not_eq:
  "(operator_neq (EnumIter_base a) (EnumIter_base b)
      \<longleftrightarrow> \<not> operator_eq (EnumIter_base a) (EnumIter_base b)) \<and>
   (operator_neq (ReverseEnumIter_base x) (ReverseEnumIter_base y)
      \<longleftrightarrow> \<not> operator_eq (ReverseEnumIter_base x) (ReverseEnumIter_base y))"
  by (simp add: operator_neq_def operator_eq_def)

section \<open>The step operators\<close>

text \<open>
  Claim C5, as stated, for every cursor value: the forward cursor's \<^verbatim>\<open>operator++\<close> would make
  the underlying integer of the wrapped value greater by 1. It does not on a cursor over an
  \<^verbatim>\<open>unsigned char\<close> enumeration that wraps the value 255: the integer after the step is 0.
\<close>

theorem step_operators_counterexample:
  "underlying_int False (operator_deref (EnumIter_base
       (EnumIter_ctor (static_cast_value_type (255 :: 8 word))))) = 255 \<and>
   underlying_int False (operator_deref (EnumIter_base
       (fst (EnumIter_inc (EnumIter_ctor (static_cast_value_type (255 :: 8 word))))))) = 0 \<and>
   underlying_int False (operator_deref (EnumIter_base
       (fst (EnumIter_inc (EnumIter_ctor (static_cast_value_type (255 :: 8 word)))))))
     \<noteq> underlying_int False (operator_deref (EnumIter_base
       (EnumIter_ctor (static_cast_value_type (255 :: 8 word))))) + 1"
  by (simp add: underlying_int_def integral_value_def operator_deref_def EnumIter_inc_def
      EnumIter_ctor_def EnumIterBase_ctor_def Let_def wrap_def unwrap_def)

text \<open>
  Claim C5, amended. On a forward cursor whose wrapped value is not the greatest value of the
  underlying type \<^verbatim>\<open>operator++\<close> makes the underlying integer greater by 1, and on one whose
  wrapped value is not the least value \<^verbatim>\<open>operator--\<close> makes it less by 1. On a reverse
  cursor the two are swapped: \<^verbatim>\<open>operator++\<close> makes the integer less by 1 away from the least
  value, \<^verbatim>\<open>operator--\<close> greater by 1 away from the greatest. Nothing is checked against
  \<^verbatim>\<open>BEGIN\<close> or \<^verbatim>\<open>END\<close>. Each operator returns, by value, a copy of the cursor as it is after
  the step.
\<close>

theorem step_operators:
  "(unwrap (EnumIter_base c) \<noteq> integral_max s \<longrightarrow>
      underlying_int s (operator_deref (EnumIter_base (fst (EnumIter_inc c))))
        = underlying_int s (operator_deref (EnumIter_base c)) + 1 \<and>
      snd (EnumIter_inc c) = fst (EnumIter_inc c)) \<and>
   (unwrap (EnumIter_base c) \<noteq> integral_min s \<longrightarrow>
      underlying_int s (operator_deref (EnumIter_base (fst (EnumIter_dec c))))
        = underlying_int s (operator_deref (EnumIter_base c)) - 1 \<and>
      snd (EnumIter_dec c) = fst (EnumIter_dec c)) \<and>
   (unwrap (ReverseEnumIter_base d) \<noteq> integral_min s \<longrightarrow>
      underlying_int s (operator_deref (ReverseEnumIter_base (fst (ReverseEnumIter_inc d))))
        = underlying_int s (operator_deref (ReverseEnumIter_base d)) - 1 \<and>
      snd (ReverseEnumIter_inc d) = fst (ReverseEnumIter_inc d)) \<and>
   (unwrap (ReverseEnumIter_base d) \<noteq> integral_max s \<longrightarrow>
      underlying_int s (operator_deref (ReverseEnumIter_base (fst (ReverseEnumIter_dec d))))
        = underlying_int s (operator_deref (ReverseEnumIter_base d)) + 1 \<and>
      snd (ReverseEnumIter_dec d) = fst (ReverseEnumIter_dec d))"
  by (simp add: EnumIter_inc_def EnumIter_dec_def ReverseEnumIter_inc_def
      ReverseEnumIter_dec_def Let_def wrap_def unwrap_def operator_deref_def underlying_int_def
      integral_value_succ integral_value_pred)

theorem step_operators_witness:
  "unwrap (EnumIter_base (EnumIter_ctor Orange)) \<noteq> integral_max True \<and>
   unwrap (EnumIter_base (EnumIter_ctor Orange)) \<noteq> integral_min True \<and>
   unwrap (ReverseEnumIter_base (ReverseEnumIter_ctor Orange)) \<noteq> integral_max True \<and>
   unwrap (ReverseEnumIter_base (ReverseEnumIter_ctor Orange)) \<noteq> integral_min True \<and>
   underlying_int True (operator_deref (EnumIter_base (fst (EnumIter_inc (EnumIter_ctor Orange)))))
     = 2 \<and>
   underlying_int True (operator_deref (EnumIter_base (fst (EnumIter_dec (EnumIter_ctor Orange)))))
     = 0 \<and>
   underlying_int True (operator_deref (ReverseEnumIter_base
       (fst (ReverseEnumIter_inc (ReverseEnumIter_ctor Orange))))) = 0 \<and>
   underlying_int True (operator_deref (ReverseEnumIter_base
       (fst (ReverseEnumIter_dec (ReverseEnumIter_ctor Orange))))) = 2"
proof -
  have h: "unwrap (EnumIter_base (EnumIter_ctor Orange)) \<noteq> integral_max True"
    "unwrap (EnumIter_base (EnumIter_ctor Orange)) \<noteq> integral_min True"
    "unwrap (ReverseEnumIter_base (ReverseEnumIter_ctor Orange)) \<noteq> integral_max True"
    "unwrap (ReverseEnumIter_base (ReverseEnumIter_ctor Orange)) \<noteq> integral_min True"
    by (simp_all add: unwrap_def EnumIter_ctor_def ReverseEnumIter_ctor_def EnumIterBase_ctor_def
        Orange_def integral_max_def integral_min_def)
  have v: "underlying_int True (operator_deref (EnumIter_base (EnumIter_ctor Orange))) = 1"
    "underlying_int True (operator_deref (ReverseEnumIter_base (ReverseEnumIter_ctor Orange))) = 1"
    by (simp_all add: underlying_int_def integral_value_def operator_deref_def EnumIter_ctor_def
        ReverseEnumIter_ctor_def EnumIterBase_ctor_def Orange_def)
  from step_operators [of "EnumIter_ctor Orange" True "ReverseEnumIter_ctor Orange"] h v
  show ?thesis by simp
qed

text \<open>
  Claim C9. On every cursor of either variant, \<^verbatim>\<open>operator++\<close> followed by \<^verbatim>\<open>operator--\<close>,
  or \<^verbatim>\<open>operator--\<close> followed by \<^verbatim>\<open>operator++\<close>, gives a cursor that compares equal to the
  original. In the wrap-around arithmetic of the underlying type this holds at every value,
  so in particular wherever no step overflows.
\<close>

theorem step_round_trip:
  "operator_eq (EnumIter_base (fst (EnumIter_dec (fst (EnumIter_inc c))))) (EnumIter_base c) \<and>
   operator_eq (EnumIter_base (fst (EnumIter_inc (fst (EnumIter_dec c))))) (EnumIter_base c) \<and>
   operator_eq (ReverseEnumIter_base (fst (ReverseEnumIter_dec (fst (ReverseEnumIter_inc d)))))
     (ReverseEnumIter_base d) \<and>
   operator_eq (ReverseEnumIter_base (fst (ReverseEnumIter_inc (fst (ReverseEnumIter_dec d)))))
     (ReverseEnumIter_base d)"
  by (simp add: EnumIter_inc_def EnumIter_dec_def ReverseEnumIter_inc_def
      ReverseEnumIter_dec_def Let_def wrap_def unwrap_def operator_eq_def)

section \<open>The static assertion\<close>

text \<open>
  Claim C8. \<^verbatim>\<open>Enumerate<E>\<close> is well formed exactly when the underlying integer of \<^verbatim>\<open>BEGIN\<close>
  is at most that of \<^verbatim>\<open>END\<close>: then the instantiation succeeds, with the two static members
  set from \<^verbatim>\<open>BEGIN\<close> and \<^verbatim>\<open>END\<close>; and it is rejected by the static assertion exactly when
  the underlying integer of \<^verbatim>\<open>BEGIN\<close> is greater than that of \<^verbatim>\<open>END\<close>.
\<close>

theorem static_assert_iff:
  "(Enumerate_instantiate E = Inr \<lparr>begin_value = BEGIN E, end_value = END E\<rparr>
      \<longleftrightarrow> underlying_int (underlying_signed E) (BEGIN E)
            \<le> underlying_int (underlying_signed E) (END E)) \<and>
   (Enumerate_instantiate E = Inl Static_assertion_failed
      \<longleftrightarrow> underlying_int (underlying_signed E) (END E)
            < underlying_int (underlying_signed E) (BEGIN E))"
  by (auto simp add: Enumerate_instantiate_def Let_def Enum_le_iff)

section \<open>The traversals\<close>

text \<open>
  Claim C1. For every enumeration for which \<^verbatim>\<open>Enumerate\<close> instantiates (so \<^verbatim>\<open>BEGIN <= END\<close>),
  the loop from \<^verbatim>\<open>begin()\<close> that dereferences and then advances with \<^verbatim>\<open>operator++\<close> until the
  cursor equals \<^verbatim>\<open>end()\<close> terminates, and the underlying integers of the values it visits
  are, in this order, \<^verbatim>\<open>BEGIN\<close>, \<^verbatim>\<open>BEGIN + 1\<close>, ..., \<^verbatim>\<open>END - 1\<close>; no value is visited twice.
\<close>

theorem forward_traversal_ascending:
  assumes "Enumerate_instantiate E = Inr r"
  shows "map (underlying_int (underlying_signed E)) (forward_traversal r)
      = [underlying_int (underlying_signed E) (BEGIN E)
          .. underlying_int (underlying_signed E) (END E) - 1] \<and>
    distinct (forward_traversal r)"
proof -
  note inst = Enumerate_instantiate_Inr [OF assms]
  have ints: "map (underlying_int (underlying_signed E)) (forward_traversal r)
      = [underlying_int (underlying_signed E) (BEGIN E)
          .. underlying_int (underlying_signed E) (END E) - 1]"
    unfolding inst(1) using inst(2) by (rule forward_traversal_ints)
  have "distinct (map (underlying_int (underlying_signed E)) (forward_traversal r))"
    unfolding ints by simp
  then have "distinct (forward_traversal r)"
    by (simp add: distinct_map)
  with ints show ?thesis by simp
qed

theorem forward_traversal_ascending_witness:
  "Enumerate_instantiate Fruit = Inr \<lparr>begin_value = Apple, end_value = static_cast_value_type 3\<rparr> \<and>
   map (underlying_int True)
     (forward_traversal \<lparr>begin_value = Apple, end_value = static_cast_value_type 3\<rparr>) = [0, 1, 2] \<and>
   distinct (forward_traversal \<lparr>begin_value = Apple, end_value = static_cast_value_type 3\<rparr>)"
proof -
  have h: "Enumerate_instantiate Fruit
      = Inr \<lparr>begin_value = Apple, end_value = static_cast_value_type 3\<rparr>"
    by (simp add: Enumerate_instantiate_def Fruit_def Apple_def Enum_le_def word_sle_eq)
  have "[0 .. 3 - 1] = [0, 1, 2 :: int]"
    by (simp add: upto.simps)
  with forward_traversal_ascending [OF h] h show ?thesis
    by (simp add: Fruit_def Apple_def underlying_int_def integral_value_def)
qed

text \<open>
  Claim C2, as stated, for every enumeration with \<^verbatim>\<open>BEGIN <= END\<close>: the reverse traversal
  would visit the values of the forward traversal in the opposite order. It does not for
  \<^verbatim>\<open>Lowest\<close>, whose \<^verbatim>\<open>BEGIN\<close> is \<^verbatim>\<open>INT_MIN\<close>: \<^verbatim>\<open>Enumerate\<close> instantiates, but \<^verbatim>\<open>rend()\<close>
  subtracts 1 from \<^verbatim>\<open>INT_MIN\<close> in \<^verbatim>\<open>int\<close>, so the traversal has no defined result.
\<close>

theorem reverse_traversal_mirror_counterexample:
  "Enumerate_instantiate Lowest
     = Inr \<lparr>begin_value = static_cast_value_type (- 2147483648),
            end_value = static_cast_value_type (- 2147483646)\<rparr> \<and>
   reverse_traversal_strict (underlying_signed Lowest)
       \<lparr>begin_value = static_cast_value_type (- 2147483648),
        end_value = static_cast_value_type (- 2147483646 :: 32 word)\<rparr>
     = Inl Signed_overflow \<and>
   reverse_traversal_strict (underlying_signed Lowest)
       \<lparr>begin_value = static_cast_value_type (- 2147483648),
        end_value = static_cast_value_type (- 2147483646 :: 32 word)\<rparr>
     \<noteq> Inr (rev (forward_traversal
         \<lparr>begin_value = static_cast_value_type (- 2147483648),
          end_value = static_cast_value_type (- 2147483646 :: 32 word)\<rparr>))"
proof -
  have "Enumerate_instantiate Lowest
      = Inr \<lparr>begin_value = static_cast_value_type (- 2147483648),
             end_value = static_cast_value_type (- 2147483646)\<rparr>"
    by (simp add: Enumerate_instantiate_def Lowest_def Enum_le_def word_sle_eq)
  moreover have "reverse_traversal_strict (underlying_signed Lowest)
       \<lparr>begin_value = static_cast_value_type (- 2147483648),
        end_value = static_cast_value_type (- 2147483646 :: 32 word)\<rparr>
     = Inl Signed_overflow"
    by (simp add: reverse_traversal_strict_def Enumerate_rbegin_strict_def
        Enumerate_rend_strict_def ReverseEnumIter_inc_strict_def unwrap_minus_1_strict_def
        ReverseEnumIter_ctor_def EnumIterBase_ctor_def unwrap_def Let_def Lowest_def
        int_width_def integral_min_def)
  ultimately show ?thesis by simp
qed

text \<open>
  Claim C2, amended. For every enumeration for which \<^verbatim>\<open>Enumerate\<close> instantiates and whose
  \<^verbatim>\<open>BEGIN\<close> is not the least value of a signed underlying type, the loop from \<^verbatim>\<open>rbegin()\<close>
  that dereferences and then advances with the reverse cursor's \<^verbatim>\<open>operator++\<close> until the
  cursor equals \<^verbatim>\<open>rend()\<close> is defined at every step, terminates, and visits the values of the
  forward traversal in the opposite order: the same set of values, none twice, with the
  underlying integers descending from \<^verbatim>\<open>END - 1\<close> to \<^verbatim>\<open>BEGIN\<close>.
\<close>

theorem reverse_traversal_mirror:
  assumes "Enumerate_instantiate E = Inr r"
    and "underlying_signed E \<longrightarrow> static_cast_integral_type (BEGIN E) \<noteq> integral_min True"
  shows "reverse_traversal_strict (underlying_signed E) r = Inr (reverse_traversal r) \<and>
    reverse_traversal r = rev (forward_traversal r) \<and>
    set (reverse_traversal r) = set (forward_traversal r) \<and>
    distinct (reverse_traversal r) \<and>
    map (underlying_int (underlying_signed E)) (reverse_traversal r)
      = rev [underlying_int (underlying_signed E) (BEGIN E)
              .. underlying_int (underlying_signed E) (END E) - 1]"
proof -
  note inst = Enumerate_instantiate_Inr [OF assms(1)]
  have defined: "reverse_traversal_strict (underlying_signed E) r = Inr (reverse_traversal r)"
    using assms by (rule reverse_traversal_strict_defined)
  have ints: "map (underlying_int (underlying_signed E)) (forward_traversal r)
      = [underlying_int (underlying_signed E) (BEGIN E)
          .. underlying_int (underlying_signed E) (END E) - 1]"
    unfolding inst(1) using inst(2) by (rule forward_traversal_ints)
  have "distinct (map (underlying_int (underlying_signed E)) (forward_traversal r))"
    unfolding ints by simp
  then have "distinct (forward_traversal r)"
    by (simp add: distinct_map)
  moreover have "map (underlying_int (underlying_signed E)) (rev (forward_traversal r))
      = rev [underlying_int (underlying_signed E) (BEGIN E)
              .. underlying_int (underlying_signed E) (END E) - 1]"
    by (simp only: rev_map [symmetric] ints)
  ultimately show ?thesis
    using defined by (simp add: reverse_traversal_rev)
qed

theorem reverse_traversal_mirror_witness:
  "Enumerate_instantiate Fruit = Inr \<lparr>begin_value = Apple, end_value = static_cast_value_type 3\<rparr> \<and>
   underlying_signed Fruit \<and>
   static_cast_integral_type (BEGIN Fruit) \<noteq> integral_min True \<and>
   reverse_traversal_strict True \<lparr>begin_value = Apple, end_value = static_cast_value_type 3\<rparr>
     = Inr (reverse_traversal \<lparr>begin_value = Apple, end_value = static_cast_value_type 3\<rparr>) \<and>
   reverse_traversal \<lparr>begin_value = Apple, end_value = static_cast_value_type 3\<rparr>
     = rev (forward_traversal \<lparr>begin_value = Apple, end_value = static_cast_value_type 3\<rparr>) \<and>
   map (underlying_int True)
     (reverse_traversal \<lparr>begin_value = Apple, end_value = static_cast_value_type 3\<rparr>) = [2, 1, 0]"
proof -
  let ?r = "\<lparr>begin_value = Apple, end_value = static_cast_value_type (3 :: 32 word)\<rparr>"
  have h: "Enumerate_instantiate Fruit = Inr ?r"
    by (simp add: Enumerate_instantiate_def Fruit_def Apple_def Enum_le_def word_sle_eq)
  have low: "underlying_signed Fruit
      \<longrightarrow> static_cast_integral_type (BEGIN Fruit) \<noteq> integral_min True"
    by (simp add: Fruit_def Apple_def integral_min_def)
  have sg: "underlying_signed Fruit"
    by (simp add: Fruit_def)
  have nl: "static_cast_integral_type (BEGIN Fruit) \<noteq> integral_min True"
    by (simp add: Fruit_def Apple_def integral_min_def)
  note mirror = reverse_traversal_mirror [OF h low]
  from mirror have "reverse_traversal_strict (underlying_signed Fruit) ?r
      = Inr (reverse_traversal ?r)"
    by (rule conjunct1)
  then have s: "reverse_traversal_strict True ?r = Inr (reverse_traversal ?r)"
    by (simp add: Fruit_def)
  from mirror have a: "reverse_traversal ?r = rev (forward_traversal ?r)"
    by blast
  from mirror have "map (underlying_int (underlying_signed Fruit)) (reverse_traversal ?r)
      = rev [underlying_int (underlying_signed Fruit) (BEGIN Fruit)
              .. underlying_int (underlying_signed Fruit) (END Fruit) - 1]"
    by blast
  moreover have "[0 .. 3 - 1] = [0, 1, 2 :: int]"
    by (simp add: upto.simps)
  ultimately have b: "map (underlying_int True) (reverse_traversal ?r) = [2, 1, 0]"
    by (simp add: Fruit_def Apple_def underlying_int_def integral_value_def)
  from h sg nl s a b show ?thesis
    by (intro conjI)
qed

section \<open>The four cursors of \<^verbatim>\<open>Enumerate\<close>\<close>




text \<open>
  Claim C4. For every enumeration for which \<^verbatim>\<open>Enumerate\<close> instantiates, applying
  \<^verbatim>\<open>operator++\<close> to the cursor \<^verbatim>\<open>begin()\<close> as many times as there are values in the range,
  the underlying integer of \<^verbatim>\<open>END\<close> minus that of \<^verbatim>\<open>BEGIN\<close>, gives a cursor that compares
  equal to \<^verbatim>\<open>end()\<close>.
\<close>

theorem advance_begin_reaches_end:
  assumes "Enumerate_instantiate E = Inr r"
  shows "operator_eq
      (EnumIter_base
        (((\<lambda>c. fst (EnumIter_inc c))
            ^^ nat (underlying_int (underlying_signed E) (END E)
                    - underlying_int (underlying_signed E) (BEGIN E)))
          (Enumerate_begin r)))
      (EnumIter_base (Enumerate_end r))"
proof -
  note inst = Enumerate_instantiate_Inr [OF assms]
  obtain b e where B: "BEGIN E = static_cast_value_type b"
    and E: "END E = static_cast_value_type e"
    by (cases "BEGIN E", cases "END E") simp
  from inst(2) have "integral_value (underlying_signed E) b
      \<le> integral_value (underlying_signed E) e"
    by (simp add: B E underlying_int_def)
  then have d: "int (unat (e - b)) = integral_value (underlying_signed E) e
      - integral_value (underlying_signed E) b"
    by (rule integral_value_diff)
  have "nat (int (unat (e - b))) = unat (e - b)"
    by (rule nat_int)
  then have n: "nat (underlying_int (underlying_signed E) (END E)
      - underlying_int (underlying_signed E) (BEGIN E)) = unat (e - b)"
    unfolding d B E underlying_int_def Enum.sel .
  have "b + of_nat (unat (e - b)) = e"
    by simp
  then show ?thesis
    unfolding n inst(1)
    by (simp add: Enumerate_begin_def Enumerate_end_def B E EnumIter_inc_funpow operator_eq_def)
qed

theorem advance_begin_reaches_end_witness:
  "Enumerate_instantiate Fruit = Inr \<lparr>begin_value = Apple, end_value = static_cast_value_type 3\<rparr> \<and>
   operator_eq
     (EnumIter_base
       (((\<lambda>c. fst (EnumIter_inc c)) ^^ 3)
         (Enumerate_begin \<lparr>begin_value = Apple, end_value = static_cast_value_type 3\<rparr>)))
     (EnumIter_base (Enumerate_end \<lparr>begin_value = Apple, end_value = static_cast_value_type 3\<rparr>))"
proof -
  have h: "Enumerate_instantiate Fruit
      = Inr \<lparr>begin_value = Apple, end_value = static_cast_value_type 3\<rparr>"
    by (simp add: Enumerate_instantiate_def Fruit_def Apple_def Enum_le_def word_sle_eq)
  have "nat (underlying_int (underlying_signed Fruit) (END Fruit)
      - underlying_int (underlying_signed Fruit) (BEGIN Fruit)) = 3"
    by (simp add: Fruit_def Apple_def underlying_int_def integral_value_def)
  with advance_begin_reaches_end [OF h] h show ?thesis
    by simp
qed





end
